theory Spec2Isabelle
  imports Main "HOL-Library.Multiset"
begin

section \<open>Data model of the segment checker\<close>

text \<open>
  The checker of \<^verbatim>\<open>internal/querycoordv2/checkers/segment_checker.go\<close> reads
  snapshots held by its collaborators (meta, distribution, target manager, node manager,
  balancer) and produces tasks. Go's \<^verbatim>\<open>int64\<close> identifiers and versions are
  only compared, never computed with, so they are modelled as \<open>int\<close>; the
  \<^verbatim>\<open>uint64\<close> timestamps as \<open>nat\<close>. A pointer that may be
  \<^verbatim>\<open>nil\<close> is an \<open>option\<close>. A Go map that the code ranges over is an
  association list in the order of the iteration; a map that is only looked up is a HOL map.
  The values stored in these maps and slices are taken to be non-nil pointers. One call of
  \<^verbatim>\<open>Check\<close> runs in a single goroutine over the snapshots, which are fixed here
  for the duration of the call.
\<close>

text \<open>
  Modelled from the spec: the enumeration \<^verbatim>\<open>datapb.SegmentLevel\<close> is declared
  outside the checker; the data model names the levels Normal and L0, and the checker only
  ever compares with L0.
\<close>

datatype SegmentLevel = Normal | L0

text \<open>\<^verbatim>\<open>msgpb.MsgPosition\<close>: only the timestamp is read.\<close>

record MsgPosition =
  Timestamp :: nat

text \<open>The nil-safe getter \<^verbatim>\<open>GetTimestamp\<close> of a position pointer.\<close>

definition GetTimestamp :: "MsgPosition option \<Rightarrow> nat" where
  "GetTimestamp p = (case p of None \<Rightarrow> 0 | Some pos \<Rightarrow> Timestamp pos)"

text \<open>\<^verbatim>\<open>datapb.SegmentInfo\<close>, the target-side description of a segment.\<close>

record SegmentInfo =
  ID :: int
  CollectionID :: int
  PartitionID :: int
  InsertChannel :: string
  Level :: SegmentLevel
  StartPosition :: "MsgPosition option"

text \<open>
  \<^verbatim>\<open>meta.Segment\<close> embeds a \<^verbatim>\<open>SegmentInfo\<close> and adds the node that
  reported the placement and the version of the report.
\<close>

record Segment = SegmentInfo +
  Node :: int
  Version :: int

text \<open>\<^verbatim>\<open>querypb.SegmentDist\<close>: the node a leader reads a sealed segment from.\<close>

record SegmentDist =
  NodeID :: int

text \<open>
  \<^verbatim>\<open>meta.LeaderView\<close>. \<open>GrowingSegments\<close> is ranged over, so it is kept
  as an association list; \<open>Segments\<close> is only looked up.
\<close>

record LeaderView =
  LeaderID :: int
  TargetVersion :: int
  Segments :: "int \<rightharpoonup> SegmentDist"
  GrowingSegments :: "(int \<times> Segment) list"

text \<open>\<^verbatim>\<open>meta.DmChannel\<close>: only the seek position is read.\<close>

record DmChannel =
  SeekPosition :: "MsgPosition option"

record Replica =
  ReplicaID :: int
  ReplicaCollectionID :: int
  ReplicaNodes :: "int list"

datatype TargetScope = CurrentTarget | NextTarget | CurrentTargetFirst | NextTargetFirst

datatype ActionType = ActionTypeGrow | ActionTypeReduce

datatype DataScope = DataScope_Historical | DataScope_Streaming

datatype Priority = TaskPriorityLow | TaskPriorityNormal | TaskPriorityHigh

text \<open>The action built by \<^verbatim>\<open>task.NewSegmentActionWithScope\<close>.\<close>

record SegmentAction =
  ActionNode :: int
  ActionKind :: ActionType
  ActionShard :: string
  ActionSegmentID :: int
  ActionScope :: DataScope

record Task =
  TaskAction :: SegmentAction
  TaskCollectionID :: int
  TaskReplica :: Replica
  TaskReason :: string
  TaskPriority :: Priority

record SegmentAssignPlan =
  PlanSegment :: Segment
  PlanReplica :: Replica
  PlanFrom :: int
  PlanTo :: int

text \<open>A run-time panic of the Go program; the only one the checker can raise itself.\<close>

datatype panic = NilPointerDereference

subsection \<open>The collaborators, as the snapshots and functions the checker calls\<close>

text \<open>
  The packages \<^verbatim>\<open>meta\<close>, \<^verbatim>\<open>session\<close>, \<^verbatim>\<open>balance\<close> and
  \<^verbatim>\<open>task\<close> are outside the checker. Each call the checker makes is a field of
  the record of its manager: the field is the answer of the manager's snapshot during one
  pass. For a collection or a partition only the nil test is used, so the pointer is a
  \<open>unit option\<close>.
\<close>

record Meta =
  CollectionManager_GetAll :: "int list"
  GetCollection :: "int \<Rightarrow> unit option"
  GetPartition :: "int \<Rightarrow> unit option"
  ReplicaManager_GetByCollection :: "int \<Rightarrow> Replica list"
  ReplicaManager_Get :: "int \<Rightarrow> Replica option"
  CheckOutboundNodes :: "Replica \<Rightarrow> int set"
  NilReplica :: Replica

record DistributionManager =
  SegmentDistManager :: "Segment list"
  GetShardLeadersByReplica :: "Replica \<Rightarrow> (string \<times> int) list"
  GetShardLeader :: "Replica \<Rightarrow> string \<Rightarrow> int option"
  GetLeaderShardView :: "int \<Rightarrow> string \<Rightarrow> LeaderView option"
  GetLatestLeadersByReplicaShard :: "Replica \<Rightarrow> string \<Rightarrow> LeaderView option"

record TargetManager =
  IsNextTargetExist :: "int \<Rightarrow> bool"
  IsCurrentTargetExist :: "int \<Rightarrow> bool"
  GetCollectionTargetVersion :: "int \<Rightarrow> TargetScope \<Rightarrow> int"
  GetGrowingSegmentsByCollection :: "int \<Rightarrow> TargetScope \<Rightarrow> int set"
  GetSealedSegmentsByCollection :: "int \<Rightarrow> TargetScope \<Rightarrow> (int \<times> SegmentInfo) list"
  GetDmChannelsByCollection :: "int \<Rightarrow> TargetScope \<Rightarrow> (string \<rightharpoonup> DmChannel)"
  GetSealedSegment :: "int \<Rightarrow> int \<Rightarrow> TargetScope \<Rightarrow> SegmentInfo option"

record NodeManager =
  IsStoppingNode :: "int \<Rightarrow> string + bool"

record Balance =
  AssignSegment :: "int \<Rightarrow> Segment list \<Rightarrow> int list \<Rightarrow> bool \<Rightarrow> SegmentAssignPlan list"

text \<open>
  The free functions the checker calls: the task constructors, and the standard library's
  \<^verbatim>\<open>sort.Slice\<close> at the comparison \<^verbatim>\<open>dist[i].Version < dist[j].Version\<close>.
  The library documents \<^verbatim>\<open>sort.Slice\<close> as sorting in place and as not
  guaranteed to be stable, so which sorted permutation it returns is a parameter.
\<close>

record Runtime =
  NewSegmentTask :: "int \<Rightarrow> Replica \<Rightarrow> SegmentAction \<Rightarrow> string + Task"
  CreateSegmentTasksFromPlans :: "SegmentAssignPlan list \<Rightarrow> Task list"
  sort_Slice :: "Segment list \<Rightarrow> Segment list"

record SegmentChecker =
  IsActive :: bool
  meta :: Meta
  dist :: DistributionManager
  targetMgr :: TargetManager
  balancer :: Balance
  nodeMgr :: NodeManager
  runtime :: Runtime

text \<open>
  Modelled from the spec: \<^verbatim>\<open>SegmentDistManager.GetByFilter\<close> is declared in
  package \<^verbatim>\<open>meta\<close>; it returns the placements of the distribution that pass
  every filter given (\<^verbatim>\<open>GetSegmentsByFilter(filters...) -> []Segment\<close>).
\<close>

definition GetByFilter :: "DistributionManager \<Rightarrow> (Segment \<Rightarrow> bool) list \<Rightarrow> Segment list" where
  "GetByFilter d filters = filter (\<lambda>s. list_all (\<lambda>f. f s) filters) (SegmentDistManager d)"

definition WithCollectionID :: "int \<Rightarrow> Segment \<Rightarrow> bool" where
  "WithCollectionID collectionID s = (CollectionID s = collectionID)"

definition WithNodeID :: "int \<Rightarrow> Segment \<Rightarrow> bool" where
  "WithNodeID nodeID s = (Node s = nodeID)"

section \<open>The duplicate resolver\<close>

definition getSealedSegmentsDist :: "SegmentChecker \<Rightarrow> Replica \<Rightarrow> Segment list" where
  "getSealedSegmentsDist c replica =
     concat (map (\<lambda>node. GetByFilter (dist c)
                    [WithCollectionID (ReplicaCollectionID replica), WithNodeID node])
                 (ReplicaNodes replica))"

text \<open>
  The test at the head of the loop of \<^verbatim>\<open>findRepeatedSealedSegments\<close>: the
  placement's segment resolves in the target (current first) to an L0 segment.
\<close>

definition isL0Segment :: "SegmentChecker \<Rightarrow> Segment \<Rightarrow> bool" where
  "isL0Segment c s =
     (case GetSealedSegment (targetMgr c) (CollectionID s) (ID s) CurrentTargetFirst of
        None \<Rightarrow> False
      | Some segment \<Rightarrow> Level segment = L0)"

text \<open>
  The loop of \<^verbatim>\<open>findRepeatedSealedSegments\<close>, with its two local variables: the map
  \<open>versions\<close> of the tracked placement of each segment and the slice \<open>segments\<close>
  of the placements to release.
\<close>

fun findRepeatedSealedSegments_loop ::
  "SegmentChecker \<Rightarrow> Segment list \<Rightarrow> (int \<rightharpoonup> Segment) \<Rightarrow> Segment list
     \<Rightarrow> (int \<rightharpoonup> Segment) \<times> Segment list" where
  "findRepeatedSealedSegments_loop c [] versions segments = (versions, segments)"
| "findRepeatedSealedSegments_loop c (s # rest) versions segments =
     (if isL0Segment c s then findRepeatedSealedSegments_loop c rest versions segments
      else case versions (ID s) of
        None \<Rightarrow> findRepeatedSealedSegments_loop c rest (versions(ID s \<mapsto> s)) segments
      | Some maxVer \<Rightarrow>
          if Version maxVer \<le> Version s
          then findRepeatedSealedSegments_loop c rest (versions(ID s \<mapsto> s)) (segments @ [maxVer])
          else findRepeatedSealedSegments_loop c rest versions (segments @ [s]))"

definition findRepeatedSealedSegments :: "SegmentChecker \<Rightarrow> int \<Rightarrow> Segment list" where
  "findRepeatedSealedSegments c replicaID =
     (case ReplicaManager_Get (meta c) replicaID of
        None \<Rightarrow> []
      | Some replica \<Rightarrow>
          snd (findRepeatedSealedSegments_loop c (getSealedSegmentsDist c replica) Map.empty []))"

text \<open>
  The value of the local map \<open>versions\<close> when \<^verbatim>\<open>findRepeatedSealedSegments\<close>
  returns: the placements that were not put on the release list.
\<close>

definition findRepeatedSealedSegments_versions :: "SegmentChecker \<Rightarrow> int \<Rightarrow> (int \<rightharpoonup> Segment)" where
  "findRepeatedSealedSegments_versions c replicaID =
     (case ReplicaManager_Get (meta c) replicaID of
        None \<Rightarrow> Map.empty
      | Some replica \<Rightarrow>
          fst (findRepeatedSealedSegments_loop c (getSealedSegmentsDist c replica) Map.empty []))"

section \<open>The growing-segment differ\<close>

text \<open>
  The inner loop of \<^verbatim>\<open>getGrowingSegmentDiff\<close> over the growing segments of one
  leader view, appending to \<open>toRelease\<close>.
\<close>

fun getGrowingSegmentDiff_segments ::
  "int set \<Rightarrow> int set \<Rightarrow> (string \<rightharpoonup> DmChannel) \<Rightarrow> Segment list \<Rightarrow> Segment list
     \<Rightarrow> Segment list" where
  "getGrowingSegmentDiff_segments currentTargetSegmentIDs nextTargetSegmentIDs
       currentTargetChannelMap [] toRelease = toRelease"
| "getGrowingSegmentDiff_segments currentTargetSegmentIDs nextTargetSegmentIDs
       currentTargetChannelMap (segment # rest) toRelease =
     getGrowingSegmentDiff_segments currentTargetSegmentIDs nextTargetSegmentIDs
       currentTargetChannelMap rest
       (if ID segment \<notin> currentTargetSegmentIDs \<and> ID segment \<notin> nextTargetSegmentIDs
        then (case currentTargetChannelMap (InsertChannel segment) of
                None \<Rightarrow> toRelease
              | Some channel \<Rightarrow>
                  (let timestampInSegment = GetTimestamp (StartPosition segment);
                       timestampInTarget = GetTimestamp (SeekPosition channel)
                   in if timestampInSegment < timestampInTarget
                      then toRelease @ [segment] else toRelease))
        else toRelease)"

text \<open>The outer loop over the shard leaders of the replica.\<close>

fun getGrowingSegmentDiff_leaders ::
  "SegmentChecker \<Rightarrow> int \<Rightarrow> (string \<times> int) list \<Rightarrow> Segment list \<Rightarrow> Segment list" where
  "getGrowingSegmentDiff_leaders c collectionID [] toRelease = toRelease"
| "getGrowingSegmentDiff_leaders c collectionID ((channelName, node) # rest) toRelease =
     (case GetLeaderShardView (dist c) node channelName of
        None \<Rightarrow> getGrowingSegmentDiff_leaders c collectionID rest toRelease
      | Some view \<Rightarrow>
          (let targetVersion = GetCollectionTargetVersion (targetMgr c) collectionID CurrentTarget
           in if TargetVersion view \<noteq> targetVersion
              then getGrowingSegmentDiff_leaders c collectionID rest toRelease
              else
                (let nextTargetSegmentIDs =
                       GetGrowingSegmentsByCollection (targetMgr c) collectionID NextTarget;
                     currentTargetSegmentIDs =
                       GetGrowingSegmentsByCollection (targetMgr c) collectionID CurrentTarget;
                     currentTargetChannelMap =
                       GetDmChannelsByCollection (targetMgr c) collectionID CurrentTarget
                 in getGrowingSegmentDiff_leaders c collectionID rest
                      (getGrowingSegmentDiff_segments currentTargetSegmentIDs nextTargetSegmentIDs
                         currentTargetChannelMap (map snd (GrowingSegments view)) toRelease))))"

definition getGrowingSegmentDiff ::
  "SegmentChecker \<Rightarrow> int \<Rightarrow> int \<Rightarrow> SegmentInfo list \<times> Segment list" where
  "getGrowingSegmentDiff c collectionID replicaID =
     (case ReplicaManager_Get (meta c) replicaID of
        None \<Rightarrow> ([], [])
      | Some replica \<Rightarrow>
          (let leaders = GetShardLeadersByReplica (dist c) replica
           in ([], getGrowingSegmentDiff_leaders c collectionID leaders [])))"

section \<open>The sealed-segment differ\<close>

text \<open>The loop that folds the sorted distribution into \<open>distMap\<close>.\<close>

fun distMap_loop :: "Segment list \<Rightarrow> (int \<rightharpoonup> int) \<Rightarrow> (int \<rightharpoonup> int)" where
  "distMap_loop [] distMap = distMap"
| "distMap_loop (s # rest) distMap = distMap_loop rest (distMap(ID s \<mapsto> Node s))"

text \<open>
  The slice \<open>dist\<close> of \<^verbatim>\<open>getSealedSegmentDiff\<close> after
  \<^verbatim>\<open>sort.Slice\<close>, and the map built from it.
\<close>

definition sortedSealedDist :: "SegmentChecker \<Rightarrow> Replica \<Rightarrow> Segment list" where
  "sortedSealedDist c replica = sort_Slice (runtime c) (getSealedSegmentsDist c replica)"

definition sealedDistMap :: "SegmentChecker \<Rightarrow> Replica \<Rightarrow> (int \<rightharpoonup> int)" where
  "sealedDistMap c replica = distMap_loop (sortedSealedDist c replica) Map.empty"

text \<open>
  The test both target loops make on a target segment: it is absent from the distribution,
  or it is an L0 segment placed on a node other than the leader of its channel.
\<close>

definition isLoadCandidate ::
  "SegmentChecker \<Rightarrow> Replica \<Rightarrow> (int \<rightharpoonup> int) \<Rightarrow> int \<Rightarrow> SegmentInfo \<Rightarrow> bool" where
  "isLoadCandidate c replica distMap segmentID segment =
     (case distMap segmentID of
        None \<Rightarrow> True
      | Some node \<Rightarrow>
          (if Level segment = L0
           then (case GetLatestLeadersByReplicaShard (dist c) replica (InsertChannel segment) of
                   None \<Rightarrow> False
                 | Some leader \<Rightarrow> node \<noteq> LeaderID leader)
           else False))"

fun nextTarget_loop ::
  "SegmentChecker \<Rightarrow> Replica \<Rightarrow> (int \<rightharpoonup> int) \<Rightarrow> (int \<times> SegmentInfo) list \<Rightarrow> SegmentInfo list
     \<Rightarrow> SegmentInfo list" where
  "nextTarget_loop c replica distMap [] toLoad = toLoad"
| "nextTarget_loop c replica distMap ((segmentID, segment) # rest) toLoad =
     nextTarget_loop c replica distMap rest
       (if isLoadCandidate c replica distMap segmentID segment
        then toLoad @ [segment] else toLoad)"

fun currentTarget_loop ::
  "SegmentChecker \<Rightarrow> Replica \<Rightarrow> (int \<rightharpoonup> int) \<Rightarrow> (int \<times> SegmentInfo) list
     \<Rightarrow> (int \<times> SegmentInfo) list \<Rightarrow> SegmentInfo list \<Rightarrow> SegmentInfo list" where
  "currentTarget_loop c replica distMap nextTargetMap [] toLoad = toLoad"
| "currentTarget_loop c replica distMap nextTargetMap ((segmentID, segment) # rest) toLoad =
     currentTarget_loop c replica distMap nextTargetMap rest
       (if map_of nextTargetMap segmentID \<noteq> None then toLoad
        else if isLoadCandidate c replica distMap segmentID segment
        then toLoad @ [segment] else toLoad)"

text \<open>
  The slice \<open>toLoad\<close> as the two target loops leave it, before the L0 gate at the end
  of \<^verbatim>\<open>getSealedSegmentDiff\<close>.
\<close>

definition sealedLoadCandidates :: "SegmentChecker \<Rightarrow> int \<Rightarrow> Replica \<Rightarrow> SegmentInfo list" where
  "sealedLoadCandidates c collectionID replica =
     (let distMap = sealedDistMap c replica;
          nextTargetMap = GetSealedSegmentsByCollection (targetMgr c) collectionID NextTarget;
          currentTargetMap = GetSealedSegmentsByCollection (targetMgr c) collectionID CurrentTarget
      in currentTarget_loop c replica distMap nextTargetMap currentTargetMap
           (nextTarget_loop c replica distMap nextTargetMap []))"

definition getSealedSegmentDiff ::
  "SegmentChecker \<Rightarrow> int \<Rightarrow> int \<Rightarrow> SegmentInfo list \<times> Segment list" where
  "getSealedSegmentDiff c collectionID replicaID =
     (case ReplicaManager_Get (meta c) replicaID of
        None \<Rightarrow> ([], [])
      | Some replica \<Rightarrow>
          (let sorted_dist = sortedSealedDist c replica;
               nextTargetMap = GetSealedSegmentsByCollection (targetMgr c) collectionID NextTarget;
               currentTargetMap =
                 GetSealedSegmentsByCollection (targetMgr c) collectionID CurrentTarget;
               toLoad = sealedLoadCandidates c collectionID replica;
               toRelease = filter (\<lambda>segment. map_of currentTargetMap (ID segment) = None
                                     \<and> map_of nextTargetMap (ID segment) = None) sorted_dist;
               level0Segments = filter (\<lambda>segment. Level segment = L0) toLoad
           in if length level0Segments > 0 then (level0Segments, toRelease)
              else (toLoad, toRelease)))"

section \<open>The staleness filters\<close>

definition initialTargetVersion :: int where
  "initialTargetVersion = 0"

text \<open>
  Both filters read a field of the leader view without testing the pointer: a leader that
  resolves while no view is registered for it makes the read a nil dereference, which is the
  \<open>Inl\<close> result here.
\<close>

fun filterExistedOnLeader_loop ::
  "SegmentChecker \<Rightarrow> Replica \<Rightarrow> Segment list \<Rightarrow> Segment list \<Rightarrow> panic + Segment list" where
  "filterExistedOnLeader_loop c replica [] filtered = Inr filtered"
| "filterExistedOnLeader_loop c replica (s # rest) filtered =
     (case GetShardLeader (dist c) replica (InsertChannel s) of
        None \<Rightarrow> filterExistedOnLeader_loop c replica rest filtered
      | Some leaderID \<Rightarrow>
          (case GetLeaderShardView (dist c) leaderID (InsertChannel s) of
             None \<Rightarrow> Inl NilPointerDereference
           | Some view \<Rightarrow>
               (case Segments view (ID s) of
                  None \<Rightarrow> filterExistedOnLeader_loop c replica rest (filtered @ [s])
                | Some seg \<Rightarrow>
                    if NodeID seg = Node s
                    then filterExistedOnLeader_loop c replica rest filtered
                    else filterExistedOnLeader_loop c replica rest (filtered @ [s]))))"

definition filterExistedOnLeader ::
  "SegmentChecker \<Rightarrow> Replica \<Rightarrow> Segment list \<Rightarrow> panic + Segment list" where
  "filterExistedOnLeader c replica segments = filterExistedOnLeader_loop c replica segments []"

fun filterSegmentInUse_loop ::
  "SegmentChecker \<Rightarrow> Replica \<Rightarrow> Segment list \<Rightarrow> Segment list \<Rightarrow> panic + Segment list" where
  "filterSegmentInUse_loop c replica [] filtered = Inr filtered"
| "filterSegmentInUse_loop c replica (s # rest) filtered =
     (case GetShardLeader (dist c) replica (InsertChannel s) of
        None \<Rightarrow> filterSegmentInUse_loop c replica rest filtered
      | Some leaderID \<Rightarrow>
          (case GetLeaderShardView (dist c) leaderID (InsertChannel s) of
             None \<Rightarrow> Inl NilPointerDereference
           | Some view \<Rightarrow>
               (let currentTargetVersion =
                      GetCollectionTargetVersion (targetMgr c) (CollectionID s) CurrentTarget;
                    partition = GetPartition (meta c) (PartitionID s);
                    readableVersionNotUpdate =
                      (TargetVersion view \<noteq> initialTargetVersion
                       \<and> TargetVersion view < currentTargetVersion)
                in if partition \<noteq> None \<and> readableVersionNotUpdate
                   then filterSegmentInUse_loop c replica rest filtered
                   else filterSegmentInUse_loop c replica rest (filtered @ [s]))))"

definition filterSegmentInUse ::
  "SegmentChecker \<Rightarrow> Replica \<Rightarrow> Segment list \<Rightarrow> panic + Segment list" where
  "filterSegmentInUse c replica segments = filterSegmentInUse_loop c replica segments []"

section \<open>The task factory\<close>

definition SetReason :: "string \<Rightarrow> Task list \<Rightarrow> Task list" where
  "SetReason reason tasks = map (\<lambda>t. t\<lparr>TaskReason := reason\<rparr>) tasks"

definition SetPriority :: "Priority \<Rightarrow> Task list \<Rightarrow> Task list" where
  "SetPriority priority tasks = map (\<lambda>t. t\<lparr>TaskPriority := priority\<rparr>) tasks"

definition NewSegmentActionWithScope ::
  "int \<Rightarrow> ActionType \<Rightarrow> string \<Rightarrow> int \<Rightarrow> DataScope \<Rightarrow> SegmentAction" where
  "NewSegmentActionWithScope nodeID typ shard segmentID scope =
     \<lparr>ActionNode = nodeID, ActionKind = typ, ActionShard = shard,
      ActionSegmentID = segmentID, ActionScope = scope\<rparr>"

text \<open>
  The node filter at the head of \<^verbatim>\<open>createSegmentLoadTasks\<close>: the local
  \<open>availableNodes\<close> before the loop over the shards.
\<close>

definition availableNodes :: "SegmentChecker \<Rightarrow> Replica \<Rightarrow> int list" where
  "availableNodes c replica =
     (let outboundNodes = CheckOutboundNodes (meta c) replica
      in filter (\<lambda>node. case IsStoppingNode (nodeMgr c) node of
                          Inl err \<Rightarrow> False
                        | Inr stop \<Rightarrow> node \<notin> outboundNodes \<and> \<not> stop)
                (ReplicaNodes replica))"

text \<open>
  \<^verbatim>\<open>lo.GroupBy\<close> by insert channel. Go leaves the order in which the resulting map
  is ranged over open; the groups are listed here in the order of their first segment.
\<close>

fun groupByInsertChannel ::
  "SegmentInfo list \<Rightarrow> (string \<times> SegmentInfo list) list \<Rightarrow> (string \<times> SegmentInfo list) list" where
  "groupByInsertChannel [] groups = groups"
| "groupByInsertChannel (s # rest) groups =
     groupByInsertChannel rest
       (case map_of groups (InsertChannel s) of
          None \<Rightarrow> groups @ [(InsertChannel s, [s])]
        | Some members \<Rightarrow>
            map (\<lambda>(shard, ms). if shard = InsertChannel s then (shard, ms @ [s]) else (shard, ms))
                groups)"

text \<open>
  The loop over the shards. \<open>nodes\<close> is the local \<open>availableNodes\<close>, which an L0
  batch overwrites with the leader's node.
\<close>

fun createSegmentLoadTasks_shards ::
  "SegmentChecker \<Rightarrow> Replica \<Rightarrow> bool \<Rightarrow> (string \<times> SegmentInfo list) list \<Rightarrow> int list
     \<Rightarrow> SegmentAssignPlan list \<Rightarrow> SegmentAssignPlan list" where
  "createSegmentLoadTasks_shards c replica isLevel0 [] nodes plans = plans"
| "createSegmentLoadTasks_shards c replica isLevel0 ((shard, segments) # rest) nodes plans =
     (case GetLatestLeadersByReplicaShard (dist c) replica shard of
        None \<Rightarrow> createSegmentLoadTasks_shards c replica isLevel0 rest nodes plans
      | Some leader \<Rightarrow>
          (let nodes' = (if isLevel0 then [LeaderID leader] else nodes);
               segmentInfos = map (\<lambda>s. SegmentInfo.extend s (Segment.fields 0 0)) segments;
               shardPlans = AssignSegment (balancer c) (ReplicaCollectionID replica)
                              segmentInfos nodes' False;
               shardPlans' = map (\<lambda>p. p\<lparr>PlanReplica := replica\<rparr>) shardPlans
           in createSegmentLoadTasks_shards c replica isLevel0 rest nodes' (plans @ shardPlans')))"

definition createSegmentLoadTasks ::
  "SegmentChecker \<Rightarrow> SegmentInfo list \<Rightarrow> Replica \<Rightarrow> Task list" where
  "createSegmentLoadTasks c segments replica =
     (case segments of
        [] \<Rightarrow> []
      | first # _ \<Rightarrow>
          (let nodes = availableNodes c replica
           in if length nodes = 0 then []
              else
                (let isLevel0 = (Level first = L0);
                     shardSegments = groupByInsertChannel segments [];
                     plans = createSegmentLoadTasks_shards c replica isLevel0 shardSegments nodes []
                 in CreateSegmentTasksFromPlans (runtime c) plans)))"

fun createSegmentReduceTasks_loop ::
  "SegmentChecker \<Rightarrow> Replica \<Rightarrow> DataScope \<Rightarrow> Segment list \<Rightarrow> Task list \<Rightarrow> Task list" where
  "createSegmentReduceTasks_loop c replica scope [] ret = ret"
| "createSegmentReduceTasks_loop c replica scope (s # rest) ret =
     (let action = NewSegmentActionWithScope (Node s) ActionTypeReduce (InsertChannel s) (ID s) scope
      in case NewSegmentTask (runtime c) (CollectionID s) replica action of
           Inl err \<Rightarrow> createSegmentReduceTasks_loop c replica scope rest ret
         | Inr t \<Rightarrow> createSegmentReduceTasks_loop c replica scope rest (ret @ [t]))"

definition createSegmentReduceTasks ::
  "SegmentChecker \<Rightarrow> Segment list \<Rightarrow> Replica \<Rightarrow> DataScope \<Rightarrow> Task list" where
  "createSegmentReduceTasks c segments replica scope =
     createSegmentReduceTasks_loop c replica scope segments []"

section \<open>The orchestrator\<close>

definition readyToCheck :: "SegmentChecker \<Rightarrow> int \<Rightarrow> bool" where
  "readyToCheck c collectionID =
     (let metaExist = (GetCollection (meta c) collectionID \<noteq> None);
          targetExist = (IsNextTargetExist (targetMgr c) collectionID
                         \<or> IsCurrentTargetExist (targetMgr c) collectionID)
      in metaExist \<and> targetExist)"

definition checkReplica :: "SegmentChecker \<Rightarrow> Replica \<Rightarrow> panic + Task list" where
  "checkReplica c replica =
     (let (lacks, redundancies) =
            getSealedSegmentDiff c (ReplicaCollectionID replica) (ReplicaID replica);
          loadTasks = SetReason ''lacks of segment'' (createSegmentLoadTasks c lacks replica)
      in case filterSegmentInUse c replica redundancies of
           Inl p \<Rightarrow> Inl p
         | Inr inTarget \<Rightarrow>
             (let targetTasks = SetReason ''segment not exists in target''
                    (createSegmentReduceTasks c inTarget replica DataScope_Historical);
                  repeated = findRepeatedSealedSegments c (ReplicaID replica)
              in case filterExistedOnLeader c replica repeated of
                   Inl p \<Rightarrow> Inl p
                 | Inr notServing \<Rightarrow>
                     (let repeatedTasks = SetReason ''redundancies of segment''
                            (createSegmentReduceTasks c notServing replica DataScope_Historical);
                          growing = snd (getGrowingSegmentDiff c (ReplicaCollectionID replica)
                                           (ReplicaID replica));
                          growingTasks = SetReason ''streaming segment not exists in target''
                            (createSegmentReduceTasks c growing replica DataScope_Streaming)
                      in Inr (loadTasks @ targetTasks @ repeatedTasks @ growingTasks))))"

fun checkReplicas :: "SegmentChecker \<Rightarrow> Replica list \<Rightarrow> Task list \<Rightarrow> panic + Task list" where
  "checkReplicas c [] results = Inr results"
| "checkReplicas c (r # rest) results =
     (case checkReplica c r of
        Inl p \<Rightarrow> Inl p
      | Inr tasks \<Rightarrow> checkReplicas c rest (results @ tasks))"

fun checkCollections :: "SegmentChecker \<Rightarrow> int list \<Rightarrow> Task list \<Rightarrow> panic + Task list" where
  "checkCollections c [] results = Inr results"
| "checkCollections c (cid # rest) results =
     (if readyToCheck c cid
      then (case checkReplicas c (ReplicaManager_GetByCollection (meta c) cid) results of
              Inl p \<Rightarrow> Inl p
            | Inr results' \<Rightarrow> checkCollections c rest results')
      else checkCollections c rest results)"

text \<open>
  Modelled from the spec: \<^verbatim>\<open>utils.FilterReleased\<close> is declared in package
  \<^verbatim>\<open>utils\<close>; it keeps the segments that belong to collections no longer in the
  live collection set.
\<close>

definition FilterReleased :: "Segment list \<Rightarrow> int list \<Rightarrow> Segment list" where
  "FilterReleased segments collectionIDs =
     filter (\<lambda>s. CollectionID s \<notin> set collectionIDs) segments"

definition Check :: "SegmentChecker \<Rightarrow> panic + Task list" where
  "Check c =
     (if \<not> IsActive c then Inr []
      else
        (let collectionIDs = CollectionManager_GetAll (meta c)
         in case checkCollections c collectionIDs [] of
              Inl p \<Rightarrow> Inl p
            | Inr results \<Rightarrow>
                (let segments = GetByFilter (dist c) [];
                     released = FilterReleased segments collectionIDs;
                     reduceTasks = SetReason ''collection released''
                       (createSegmentReduceTasks c released (NilReplica (meta c))
                          DataScope_Historical)
                 in Inr (SetPriority TaskPriorityNormal (results @ reduceTasks)))))"

section \<open>Auxiliary notions for the proofs\<close>

text \<open>
  The bookkeeping of the duplicate resolver for one segment id \<open>i\<close>, after the loop
  has walked the placements \<open>seen\<close>: the tracked placement is the last one that carries
  the highest version among the placements of \<open>i\<close> that are not L0, and the release list
  holds the others.
\<close>

definition tracked :: "SegmentChecker \<Rightarrow> int \<Rightarrow> Segment list \<Rightarrow> (int \<rightharpoonup> Segment) \<Rightarrow> Segment list \<Rightarrow> bool" where
  "tracked c i seen versions segments =
     (case versions i of
        None \<Rightarrow> filter (\<lambda>s. ID s = i \<and> \<not> isL0Segment c s) seen = []
                 \<and> filter (\<lambda>s. ID s = i) segments = []
      | Some m \<Rightarrow> (\<exists>before after.
            filter (\<lambda>s. ID s = i \<and> \<not> isL0Segment c s) seen = before @ m # after
          \<and> (\<forall>p\<in>set before. Version p \<le> Version m)
          \<and> (\<forall>p\<in>set after. Version p < Version m)
          \<and> mset (filter (\<lambda>s. ID s = i) segments) = mset (before @ after)))"

section \<open>Example configurations\<close>

text \<open>
  A collection 1 with one replica 10 on the nodes 1, 2 and 3, one channel led by node 1,
  and a distribution given as a parameter. Node 2 is outbound and node 3 is stopping.
\<close>

definition exampleReplica :: Replica where
  "exampleReplica = \<lparr>ReplicaID = 10, ReplicaCollectionID = 1, ReplicaNodes = [1, 2, 3]\<rparr>"

definition examplePlacement :: "int \<Rightarrow> int \<Rightarrow> int \<Rightarrow> Segment" where
  "examplePlacement segmentID node version =
     \<lparr>ID = segmentID, CollectionID = 1, PartitionID = 5, InsertChannel = ''dml_0'',
      Level = Normal, StartPosition = None, Node = node, Version = version\<rparr>"

definition exampleView :: LeaderView where
  "exampleView = \<lparr>LeaderID = 1, TargetVersion = 7, Segments = Map.empty, GrowingSegments = []\<rparr>"

definition exampleChecker :: "Segment list \<Rightarrow> SegmentChecker" where
  "exampleChecker placements =
     \<lparr>IsActive = True,
      meta = \<lparr>CollectionManager_GetAll = [1],
               GetCollection = (\<lambda>cid. if cid = 1 then Some () else None),
               GetPartition = (\<lambda>pid. if pid = 5 then Some () else None),
               ReplicaManager_GetByCollection = (\<lambda>cid. if cid = 1 then [exampleReplica] else []),
               ReplicaManager_Get = (\<lambda>rid. if rid = 10 then Some exampleReplica else None),
               CheckOutboundNodes = (\<lambda>r. {2}),
               NilReplica = \<lparr>ReplicaID = - 1, ReplicaCollectionID = 0, ReplicaNodes = []\<rparr>\<rparr>,
      dist = \<lparr>SegmentDistManager = placements,
               GetShardLeadersByReplica = (\<lambda>r. [(''dml_0'', 1)]),
               GetShardLeader = (\<lambda>r ch. if ch = ''dml_0'' then Some 1 else None),
               GetLeaderShardView =
                 (\<lambda>node ch. if node = 1 \<and> ch = ''dml_0'' then Some exampleView else None),
               GetLatestLeadersByReplicaShard =
                 (\<lambda>r ch. if ch = ''dml_0'' then Some exampleView else None)\<rparr>,
      targetMgr = \<lparr>IsNextTargetExist = (\<lambda>cid. True),
                    IsCurrentTargetExist = (\<lambda>cid. True),
                    GetCollectionTargetVersion = (\<lambda>cid scope. 7),
                    GetGrowingSegmentsByCollection = (\<lambda>cid scope. {}),
                    GetSealedSegmentsByCollection = (\<lambda>cid scope. []),
                    GetDmChannelsByCollection =
                      (\<lambda>cid scope. [''dml_0'' \<mapsto> \<lparr>SeekPosition = Some \<lparr>Timestamp = 100\<rparr>\<rparr>]),
                    GetSealedSegment = (\<lambda>cid sid scope. None)\<rparr>,
      balancer = \<lparr>AssignSegment = (\<lambda>cid segs nodes force.
                     case nodes of [] \<Rightarrow> []
                     | n # ns \<Rightarrow> map (\<lambda>s. \<lparr>PlanSegment = s, PlanReplica = exampleReplica,
                                             PlanFrom = - 1, PlanTo = n\<rparr>) segs)\<rparr>,
      nodeMgr = \<lparr>IsStoppingNode = (\<lambda>n. if n = 3 then Inr True else Inr False)\<rparr>,
      runtime = \<lparr>NewSegmentTask = (\<lambda>cid replica action.
                     Inr \<lparr>TaskAction = action, TaskCollectionID = cid, TaskReplica = replica,
                          TaskReason = [], TaskPriority = TaskPriorityLow\<rparr>),
                  CreateSegmentTasksFromPlans = (\<lambda>plans.
                     map (\<lambda>p. \<lparr>TaskAction = NewSegmentActionWithScope (PlanTo p) ActionTypeGrow
                                   (InsertChannel (PlanSegment p)) (ID (PlanSegment p))
                                   DataScope_Historical,
                                TaskCollectionID = CollectionID (PlanSegment p),
                                TaskReplica = PlanReplica p,
                                TaskReason = [], TaskPriority = TaskPriorityLow\<rparr>) plans),
                  sort_Slice = sort_key Version\<rparr>\<rparr>"

text \<open>
  The same configuration with another answer of \<^verbatim>\<open>GetLeaderShardView\<close> for the
  leader of the channel: a view that serves segment 100 from node 1, a view that lags one
  target version behind, or no view at all.
\<close>

definition withLeaderView :: "LeaderView option \<Rightarrow> SegmentChecker \<Rightarrow> SegmentChecker" where
  "withLeaderView view c =
     c\<lparr>dist := (dist c)\<lparr>GetLeaderShardView :=
            (\<lambda>node ch. if node = 1 \<and> ch = ''dml_0'' then view else None)\<rparr>\<rparr>"

definition servingView :: LeaderView where
  "servingView = exampleView\<lparr>Segments := [100 \<mapsto> \<lparr>NodeID = 1\<rparr>]\<rparr>"

definition staleView :: LeaderView where
  "staleView = exampleView\<lparr>TargetVersion := 6\<rparr>"

text \<open>
  Growing segments reported by the leader, with their start positions, and target segments
  with their levels.
\<close>

definition exampleGrowing :: "int \<Rightarrow> nat \<Rightarrow> Segment" where
  "exampleGrowing segmentID startTs =
     (examplePlacement segmentID 1 1)\<lparr>StartPosition := Some \<lparr>Timestamp = startTs\<rparr>\<rparr>"

definition growingView :: LeaderView where
  "growingView = exampleView\<lparr>GrowingSegments :=
                    [(400, exampleGrowing 400 50), (401, exampleGrowing 401 200)]\<rparr>"

definition exampleTargetSegment :: "int \<Rightarrow> SegmentLevel \<Rightarrow> SegmentInfo" where
  "exampleTargetSegment segmentID level =
     \<lparr>ID = segmentID, CollectionID = 1, PartitionID = 5, InsertChannel = ''dml_0'',
      Level = level, StartPosition = None\<rparr>"

definition withNextTarget :: "(int \<times> SegmentInfo) list \<Rightarrow> SegmentChecker \<Rightarrow> SegmentChecker" where
  "withNextTarget segments c =
     c\<lparr>targetMgr := (targetMgr c)\<lparr>GetSealedSegmentsByCollection :=
            (\<lambda>cid scope. if scope = NextTarget then segments else [])\<rparr>\<rparr>"



text \<open>The same configuration when the node manager does not know node 1.\<close>

definition withNodeLookupError :: "SegmentChecker \<Rightarrow> SegmentChecker" where
  "withNodeLookupError c =
     c\<lparr>nodeMgr := \<lparr>IsStoppingNode =
            (\<lambda>n. if n = 1 then Inl ''node not found'' else IsStoppingNode (nodeMgr c) n)\<rparr>\<rparr>"


section \<open>The duplicate resolver keeps the highest version\<close>

lemma trackedI:
  "versions i = Some m \<Longrightarrow>
   filter (\<lambda>s. ID s = i \<and> \<not> isL0Segment c s) seen = before @ m # after \<Longrightarrow>
   \<forall>p\<in>set before. Version p \<le> Version m \<Longrightarrow>
   \<forall>p\<in>set after. Version p < Version m \<Longrightarrow>
   mset (filter (\<lambda>s. ID s = i) segments) = mset (before @ after) \<Longrightarrow>
   tracked c i seen versions segments"
  unfolding tracked_def by (simp only: option.case) blast

lemma trackedE:
  assumes "tracked c i seen versions segments" "versions i = Some m"
  obtains before after where
    "filter (\<lambda>s. ID s = i \<and> \<not> isL0Segment c s) seen = before @ m # after"
    "\<forall>p\<in>set before. Version p \<le> Version m"
    "\<forall>p\<in>set after. Version p < Version m"
    "mset (filter (\<lambda>s. ID s = i) segments) = mset (before @ after)"
  using assms unfolding tracked_def by (simp only: option.case) blast

lemma tracked_skip:
  "tracked c i seen versions segments \<Longrightarrow> isL0Segment c s \<Longrightarrow>
   tracked c i (seen @ [s]) versions segments"
  by (simp add: tracked_def split: option.splits)

lemma tracked_other:
  "tracked c i seen versions segments \<Longrightarrow> ID s \<noteq> i \<Longrightarrow> ID r = ID s \<Longrightarrow>
   tracked c i (seen @ [s]) (versions(ID s \<mapsto> s)) (segments @ [r])"
  "tracked c i seen versions segments \<Longrightarrow> ID s \<noteq> i \<Longrightarrow>
   tracked c i (seen @ [s]) (versions(ID s \<mapsto> s)) segments"
  "tracked c i seen versions segments \<Longrightarrow> ID s \<noteq> i \<Longrightarrow>
   tracked c i (seen @ [s]) versions (segments @ [s])"
  by (simp_all add: tracked_def split: option.splits)

lemma tracked_first:
  assumes "tracked c (ID s) seen versions segments" "\<not> isL0Segment c s" "versions (ID s) = None"
  shows "tracked c (ID s) (seen @ [s]) (versions(ID s \<mapsto> s)) segments"
proof (rule trackedI [where before = "[]" and after = "[]" and m = s])
  from assms(1,3) have e: "filter (\<lambda>x. ID x = ID s \<and> \<not> isL0Segment c x) seen = []"
    and r: "filter (\<lambda>x. ID x = ID s) segments = []"
    by (simp_all add: tracked_def)
  show "filter (\<lambda>x. ID x = ID s \<and> \<not> isL0Segment c x) (seen @ [s]) = [] @ s # []"
    using e assms(2) by simp
  show "mset (filter (\<lambda>x. ID x = ID s) segments) = mset ([] @ [])"
    using r by simp
qed simp_all

lemma tracked_replace:
  assumes "tracked c (ID s) seen versions segments" "\<not> isL0Segment c s"
    "versions (ID s) = Some m" "Version m \<le> Version s"
  shows "tracked c (ID s) (seen @ [s]) (versions(ID s \<mapsto> s)) (segments @ [m])"
proof -
  from assms(1,3) obtain before after where
    f: "filter (\<lambda>x. ID x = ID s \<and> \<not> isL0Segment c x) seen = before @ m # after"
    and b: "\<forall>p\<in>set before. Version p \<le> Version m"
    and a: "\<forall>p\<in>set after. Version p < Version m"
    and r: "mset (filter (\<lambda>x. ID x = ID s) segments) = mset (before @ after)"
    by (rule trackedE)
  have "m \<in> set (filter (\<lambda>x. ID x = ID s \<and> \<not> isL0Segment c x) seen)"
    using f by simp
  then have idm: "ID m = ID s" by simp
  show ?thesis
  proof (rule trackedI [where before = "before @ m # after" and after = "[]" and m = s])
    show "filter (\<lambda>x. ID x = ID s \<and> \<not> isL0Segment c x) (seen @ [s]) = (before @ m # after) @ s # []"
      using f assms(2) by simp
    show "\<forall>p\<in>set (before @ m # after). Version p \<le> Version s"
      using a b assms(4) by fastforce
    show "mset (filter (\<lambda>x. ID x = ID s) (segments @ [m])) = mset ((before @ m # after) @ [])"
      using r idm by simp
  qed simp_all
qed

lemma tracked_release:
  assumes "tracked c (ID s) seen versions segments" "\<not> isL0Segment c s"
    "versions (ID s) = Some m" "\<not> Version m \<le> Version s"
  shows "tracked c (ID s) (seen @ [s]) versions (segments @ [s])"
proof -
  from assms(1,3) obtain before after where
    f: "filter (\<lambda>x. ID x = ID s \<and> \<not> isL0Segment c x) seen = before @ m # after"
    and b: "\<forall>p\<in>set before. Version p \<le> Version m"
    and a: "\<forall>p\<in>set after. Version p < Version m"
    and r: "mset (filter (\<lambda>x. ID x = ID s) segments) = mset (before @ after)"
    by (rule trackedE)
  show ?thesis
  proof (rule trackedI [where before = before and after = "after @ [s]" and m = m])
    show "filter (\<lambda>x. ID x = ID s \<and> \<not> isL0Segment c x) (seen @ [s]) = before @ m # (after @ [s])"
      using f assms(2) by simp
    show "\<forall>p\<in>set (after @ [s]). Version p < Version m"
      using a assms(4) by auto
    show "mset (filter (\<lambda>x. ID x = ID s) (segments @ [s])) = mset (before @ (after @ [s]))"
      using r by simp
  qed (use assms(3) b in simp_all)
qed

lemma tracked_key:
  assumes "tracked c i seen versions segments" "versions i = Some m"
  shows "ID m = i"
proof -
  from assms obtain before after where
    "filter (\<lambda>s. ID s = i \<and> \<not> isL0Segment c s) seen = before @ m # after"
    by (rule trackedE)
  then have "m \<in> set (filter (\<lambda>s. ID s = i \<and> \<not> isL0Segment c s) seen)" by simp
  then show ?thesis by simp
qed

text \<open>One pass of the loop body keeps the bookkeeping of every segment id.\<close>

lemma tracked_step:
  assumes all: "\<And>k. tracked c k seen versions segments"
  shows "tracked c i (seen @ [s])
           (fst (findRepeatedSealedSegments_loop c [s] versions segments))
           (snd (findRepeatedSealedSegments_loop c [s] versions segments))"
proof (cases "isL0Segment c s")
  case True
  then show ?thesis using tracked_skip [OF all True] by simp
next
  case notL0: False
  show ?thesis
  proof (cases "versions (ID s)")
    case None
    show ?thesis
    proof (cases "ID s = i")
      case True
      from tracked_first [OF all notL0 None] show ?thesis using True notL0 None by simp
    next
      case False
      then show ?thesis using tracked_other(2) [OF all False] notL0 None by simp
    qed
  next
    case (Some m)
    show ?thesis
    proof (cases "ID s = i")
      case True
      show ?thesis
      proof (cases "Version m \<le> Version s")
        case le: True
        from tracked_replace [OF all notL0 Some le] show ?thesis using True notL0 Some le by simp
      next
        case gt: False
        from tracked_release [OF all notL0 Some gt] show ?thesis using True notL0 Some gt by simp
      qed
    next
      case False
      show ?thesis
      proof (cases "Version m \<le> Version s")
        case le: True
        have "ID m = ID s" using tracked_key [OF all Some] .
        from tracked_other(1) [OF all False this]
        show ?thesis using notL0 Some le by simp
      next
        case gt: False
        show ?thesis using tracked_other(3) [OF all False] notL0 Some gt by simp
      qed
    qed
  qed
qed

lemma loop_append:
  "findRepeatedSealedSegments_loop c (x # xs) versions segments =
   findRepeatedSealedSegments_loop c xs
     (fst (findRepeatedSealedSegments_loop c [x] versions segments))
     (snd (findRepeatedSealedSegments_loop c [x] versions segments))"
  by (simp split: option.splits)

lemma loop_tracked:
  "(\<And>k. tracked c k seen versions segments) \<Longrightarrow>
   tracked c i (seen @ xs)
     (fst (findRepeatedSealedSegments_loop c xs versions segments))
     (snd (findRepeatedSealedSegments_loop c xs versions segments))"
proof (induction xs arbitrary: seen versions segments i)
  case Nil
  then show ?case by simp
next
  case (Cons x xs)
  have "tracked c i ((seen @ [x]) @ xs)
     (fst (findRepeatedSealedSegments_loop c xs
        (fst (findRepeatedSealedSegments_loop c [x] versions segments))
        (snd (findRepeatedSealedSegments_loop c [x] versions segments))))
     (snd (findRepeatedSealedSegments_loop c xs
        (fst (findRepeatedSealedSegments_loop c [x] versions segments))
        (snd (findRepeatedSealedSegments_loop c [x] versions segments))))"
    by (rule Cons.IH) (rule tracked_step, rule Cons.prems)
  then show ?case by (simp only: loop_append [of c x xs] append_Cons append_Nil append_assoc)
qed

lemma tracked_start: "tracked c i [] Map.empty []"
  by (simp add: tracked_def)

lemma findRepeated_tracked:
  "tracked c i xs
     (fst (findRepeatedSealedSegments_loop c xs Map.empty []))
     (snd (findRepeatedSealedSegments_loop c xs Map.empty []))"
  using loop_tracked [of c "[]" Map.empty "[]" i xs] by (simp add: tracked_start)

lemma mset_three:
  "mset xs = {#p1, p2, p3#} \<Longrightarrow> xs \<noteq> [] \<and> set xs = {p1, p2, p3}"
proof
  assume h: "mset xs = {#p1, p2, p3#}"
  then show "xs \<noteq> []" by auto
  have "set_mset (mset xs) = {p1, p2, p3}" by (subst h) simp
  then show "set xs = {p1, p2, p3}" by simp
qed

text \<open>
  Claim C1. For a replica that exists, and every segment id \<open>i\<close>: among the placements
  of \<open>i\<close> in the replica's sealed distribution that do not resolve to an L0 segment,
  \<^verbatim>\<open>findRepeatedSealedSegments\<close> leaves exactly one tracked in \<open>versions\<close>,
  it carries the highest version, and the release list holds exactly the others (none when
  there is no such placement). When the placements are three with versions
  \<open>v1 < v2 < v3\<close>, in whatever order the distribution lists them, the \<open>v3\<close>
  placement is the survivor and the other two are released.
\<close>

theorem findRepeatedSealedSegments_keeps_highest_version:
  assumes "ReplicaManager_Get (meta c) replicaID = Some replica"
  shows "(filter (\<lambda>s. ID s = i \<and> \<not> isL0Segment c s) (getSealedSegmentsDist c replica) = [] \<longrightarrow>
            findRepeatedSealedSegments_versions c replicaID i = None
          \<and> filter (\<lambda>s. ID s = i) (findRepeatedSealedSegments c replicaID) = [])
       \<and> (filter (\<lambda>s. ID s = i \<and> \<not> isL0Segment c s) (getSealedSegmentsDist c replica) \<noteq> [] \<longrightarrow>
            (\<exists>m. findRepeatedSealedSegments_versions c replicaID i = Some m
               \<and> m \<in> set (filter (\<lambda>s. ID s = i \<and> \<not> isL0Segment c s) (getSealedSegmentsDist c replica))
               \<and> (\<forall>p \<in> set (filter (\<lambda>s. ID s = i \<and> \<not> isL0Segment c s)
                                 (getSealedSegmentsDist c replica)). Version p \<le> Version m)
               \<and> add_mset m (mset (filter (\<lambda>s. ID s = i) (findRepeatedSealedSegments c replicaID)))
                   = mset (filter (\<lambda>s. ID s = i \<and> \<not> isL0Segment c s)
                             (getSealedSegmentsDist c replica))))
       \<and> (mset (filter (\<lambda>s. ID s = i \<and> \<not> isL0Segment c s) (getSealedSegmentsDist c replica))
              = {#p1, p2, p3#}
            \<and> Version p1 < Version p2 \<and> Version p2 < Version p3 \<longrightarrow>
            findRepeatedSealedSegments_versions c replicaID i = Some p3
          \<and> mset (filter (\<lambda>s. ID s = i) (findRepeatedSealedSegments c replicaID)) = {#p1, p2#})"
proof -
  let ?D = "getSealedSegmentsDist c replica"
  let ?P = "filter (\<lambda>s. ID s = i \<and> \<not> isL0Segment c s) ?D"
  let ?V = "findRepeatedSealedSegments_versions c replicaID"
  let ?R = "findRepeatedSealedSegments c replicaID"
  have V: "?V = fst (findRepeatedSealedSegments_loop c ?D Map.empty [])"
    and R: "?R = snd (findRepeatedSealedSegments_loop c ?D Map.empty [])"
    using assms by (simp_all add: findRepeatedSealedSegments_versions_def findRepeatedSealedSegments_def)
  have T: "tracked c i ?D ?V ?R"
    unfolding V R by (rule findRepeated_tracked)
  have none: "?V i = None \<Longrightarrow> ?P = [] \<and> filter (\<lambda>s. ID s = i) ?R = []"
    using T by (simp add: tracked_def)
  have some: "\<exists>before after. ?P = before @ m # after
        \<and> (\<forall>p\<in>set before. Version p \<le> Version m) \<and> (\<forall>p\<in>set after. Version p < Version m)
        \<and> mset (filter (\<lambda>s. ID s = i) ?R) = mset (before @ after)" if "?V i = Some m" for m
    using T that by (simp add: tracked_def)
  have part1: "?P = [] \<longrightarrow> ?V i = None \<and> filter (\<lambda>s. ID s = i) ?R = []"
  proof
    assume e: "?P = []"
    have "?V i = None"
    proof (cases "?V i")
      case (Some m)
      from some [OF Some] e show ?thesis by simp
    qed simp
    with none show "?V i = None \<and> filter (\<lambda>s. ID s = i) ?R = []" by simp
  qed
  have part2: "?P \<noteq> [] \<longrightarrow> (\<exists>m. ?V i = Some m \<and> m \<in> set ?P \<and> (\<forall>p \<in> set ?P. Version p \<le> Version m)
                 \<and> add_mset m (mset (filter (\<lambda>s. ID s = i) ?R)) = mset ?P)"
  proof
    assume ne: "?P \<noteq> []"
    then obtain m where m: "?V i = Some m" using none by (cases "?V i") auto
    from some [OF m] obtain before after where d: "?P = before @ m # after"
      and b: "\<forall>p\<in>set before. Version p \<le> Version m" and a: "\<forall>p\<in>set after. Version p < Version m"
      and r: "mset (filter (\<lambda>s. ID s = i) ?R) = mset (before @ after)" by blast
    have "m \<in> set ?P" by (subst d) simp
    moreover have "\<forall>p \<in> set ?P. Version p \<le> Version m"
      by (subst d) (use a b in fastforce)
    moreover have "add_mset m (mset (filter (\<lambda>s. ID s = i) ?R)) = mset ?P"
      by (subst d, subst r) simp
    ultimately show "\<exists>m. ?V i = Some m \<and> m \<in> set ?P \<and> (\<forall>p \<in> set ?P. Version p \<le> Version m)
                 \<and> add_mset m (mset (filter (\<lambda>s. ID s = i) ?R)) = mset ?P"
      using m by blast
  qed
  have part3: "mset ?P = {#p1, p2, p3#} \<and> Version p1 < Version p2 \<and> Version p2 < Version p3 \<longrightarrow>
       ?V i = Some p3 \<and> mset (filter (\<lambda>s. ID s = i) ?R) = {#p1, p2#}"
  proof
    assume h: "mset ?P = {#p1, p2, p3#} \<and> Version p1 < Version p2 \<and> Version p2 < Version p3"
    then have "?P \<noteq> []" using mset_three [of ?P p1 p2 p3] by blast
    with part2 obtain m where m: "?V i = Some m" and inP: "m \<in> set ?P"
      and mx: "\<forall>p \<in> set ?P. Version p \<le> Version m"
      and r: "add_mset m (mset (filter (\<lambda>s. ID s = i) ?R)) = mset ?P" by blast
    have setP: "set ?P = {p1, p2, p3}"
      using h mset_three [of ?P p1 p2 p3] by blast
    have "m \<in> {p1, p2, p3}" using inP unfolding setP .
    moreover have "Version p3 \<le> Version m" using mx unfolding setP by blast
    ultimately have m3: "m = p3" using h by auto
    have "add_mset p3 (mset (filter (\<lambda>s. ID s = i) ?R)) = add_mset p3 {#p1, p2#}"
      using r h unfolding m3 by (simp only: add_mset_commute)
    then have "mset (filter (\<lambda>s. ID s = i) ?R) = {#p1, p2#}"
      by (simp only: add_mset_add_mset_same_iff)
    with m m3 show "?V i = Some p3 \<and> mset (filter (\<lambda>s. ID s = i) ?R) = {#p1, p2#}"
      by simp
  qed
  from part1 part2 part3 show ?thesis by blast
qed

theorem findRepeatedSealedSegments_keeps_highest_version_witness:
  "findRepeatedSealedSegments_versions
       (exampleChecker [examplePlacement 100 1 2, examplePlacement 100 2 3, examplePlacement 100 3 1])
       10 100 = Some (examplePlacement 100 2 3)
   \<and> mset (filter (\<lambda>s. ID s = 100) (findRepeatedSealedSegments
       (exampleChecker [examplePlacement 100 1 2, examplePlacement 100 2 3, examplePlacement 100 3 1])
       10)) = {#examplePlacement 100 3 1, examplePlacement 100 1 2#}
   \<and> findRepeatedSealedSegments_versions
       (exampleChecker [examplePlacement 100 1 2, examplePlacement 100 2 3, examplePlacement 100 3 1])
       10 200 = None"
  using findRepeatedSealedSegments_keeps_highest_version
          [of "exampleChecker [examplePlacement 100 1 2, examplePlacement 100 2 3, examplePlacement 100 3 1]"
              10 exampleReplica 100 "examplePlacement 100 3 1" "examplePlacement 100 1 2"
              "examplePlacement 100 2 3"]
        findRepeatedSealedSegments_keeps_highest_version
          [of "exampleChecker [examplePlacement 100 1 2, examplePlacement 100 2 3, examplePlacement 100 3 1]"
              10 exampleReplica 200]
  by (simp add: exampleChecker_def exampleReplica_def examplePlacement_def
        getSealedSegmentsDist_def GetByFilter_def WithCollectionID_def WithNodeID_def isL0Segment_def)

section \<open>Equal versions in the duplicate resolver\<close>

lemma mset_one: "mset xs = {#a#} \<Longrightarrow> xs = [a]"
  by (cases xs) auto

text \<open>
  Claim C7, as the code has it. The comparison that keeps the tracked placement is
  \<^verbatim>\<open>maxVer.Version <= s.Version\<close>, so a placement that arrives with the same
  version replaces the tracked one: the survivor of a segment id is the last placement met
  that carries the highest version, every placement met after it has a strictly smaller
  version, and of two placements with equal versions the first met is released and the later
  one is kept.
\<close>

theorem findRepeatedSealedSegments_equal_versions_later_wins:
  assumes "ReplicaManager_Get (meta c) replicaID = Some replica"
  shows "(findRepeatedSealedSegments_versions c replicaID i = Some m \<longrightarrow>
            (\<exists>before after.
                filter (\<lambda>s. ID s = i \<and> \<not> isL0Segment c s) (getSealedSegmentsDist c replica)
                  = before @ m # after
              \<and> (\<forall>p\<in>set before. Version p \<le> Version m)
              \<and> (\<forall>p\<in>set after. Version p < Version m)))
       \<and> (filter (\<lambda>s. ID s = i \<and> \<not> isL0Segment c s) (getSealedSegmentsDist c replica) = [a, b]
            \<and> Version a = Version b \<longrightarrow>
            findRepeatedSealedSegments_versions c replicaID i = Some b
          \<and> filter (\<lambda>s. ID s = i) (findRepeatedSealedSegments c replicaID) = [a])"
proof -
  let ?D = "getSealedSegmentsDist c replica"
  let ?P = "filter (\<lambda>s. ID s = i \<and> \<not> isL0Segment c s) ?D"
  let ?V = "findRepeatedSealedSegments_versions c replicaID"
  let ?R = "findRepeatedSealedSegments c replicaID"
  have V: "?V = fst (findRepeatedSealedSegments_loop c ?D Map.empty [])"
    and R: "?R = snd (findRepeatedSealedSegments_loop c ?D Map.empty [])"
    using assms by (simp_all add: findRepeatedSealedSegments_versions_def findRepeatedSealedSegments_def)
  have T: "tracked c i ?D ?V ?R"
    unfolding V R by (rule findRepeated_tracked)
  have part1: "?V i = Some m \<longrightarrow> (\<exists>before after. ?P = before @ m # after
              \<and> (\<forall>p\<in>set before. Version p \<le> Version m)
              \<and> (\<forall>p\<in>set after. Version p < Version m))"
  proof
    assume "?V i = Some m"
    with T obtain before after where "?P = before @ m # after"
      "\<forall>p\<in>set before. Version p \<le> Version m" "\<forall>p\<in>set after. Version p < Version m"
      by (rule trackedE)
    then show "\<exists>before after. ?P = before @ m # after
              \<and> (\<forall>p\<in>set before. Version p \<le> Version m)
              \<and> (\<forall>p\<in>set after. Version p < Version m)" by blast
  qed
  have part2: "?P = [a, b] \<and> Version a = Version b \<longrightarrow>
        ?V i = Some b \<and> filter (\<lambda>s. ID s = i) ?R = [a]"
  proof
    assume h: "?P = [a, b] \<and> Version a = Version b"
    have "?V i \<noteq> None"
    proof
      assume "?V i = None"
      with T have "?P = []" by (simp add: tracked_def)
      with h show False by simp
    qed
    then obtain k where k: "?V i = Some k" by blast
    from T k obtain before after where d: "?P = before @ k # after"
      and a: "\<forall>p\<in>set after. Version p < Version k"
      and r: "mset (filter (\<lambda>s. ID s = i) ?R) = mset (before @ after)" by (rule trackedE)
    from d h have e: "[a, b] = before @ k # after" by simp
    have "before = [a] \<and> k = b \<and> after = []"
    proof (cases before)
      case Nil
      with e have "k = a" "after = [b]" by simp_all
      with a h show ?thesis by simp
    next
      case (Cons x xs)
      with e show ?thesis by (cases xs) simp_all
    qed
    with k r have "?V i = Some b" and "mset (filter (\<lambda>s. ID s = i) ?R) = {#a#}" by simp_all
    then show "?V i = Some b \<and> filter (\<lambda>s. ID s = i) ?R = [a]"
      using mset_one [of "filter (\<lambda>s. ID s = i) ?R" a] by blast
  qed
  from part1 part2 show ?thesis by blast
qed

theorem findRepeatedSealedSegments_equal_versions_later_wins_witness:
  "findRepeatedSealedSegments_versions
       (exampleChecker [examplePlacement 100 1 5, examplePlacement 100 2 5]) 10 100
     = Some (examplePlacement 100 2 5)
   \<and> filter (\<lambda>s. ID s = 100)
       (findRepeatedSealedSegments
          (exampleChecker [examplePlacement 100 1 5, examplePlacement 100 2 5]) 10)
     = [examplePlacement 100 1 5]"
  using findRepeatedSealedSegments_equal_versions_later_wins
          [of "exampleChecker [examplePlacement 100 1 5, examplePlacement 100 2 5]"
              10 exampleReplica 100 "examplePlacement 100 2 5"
              "examplePlacement 100 1 5" "examplePlacement 100 2 5"]
  by (simp add: exampleChecker_def exampleReplica_def examplePlacement_def
        getSealedSegmentsDist_def GetByFilter_def WithCollectionID_def WithNodeID_def isL0Segment_def)

text \<open>
  Two placements of segment 100 with the same version 5, met on node 1 and then on node 2:
  the release list is the placement met first, and the one met later is the survivor.
\<close>

theorem findRepeatedSealedSegments_first_wins_counterexample:
  "findRepeatedSealedSegments
       (exampleChecker [examplePlacement 100 1 5, examplePlacement 100 2 5]) 10
     = [examplePlacement 100 1 5]
   \<and> findRepeatedSealedSegments_versions
       (exampleChecker [examplePlacement 100 1 5, examplePlacement 100 2 5]) 10 100
     = Some (examplePlacement 100 2 5)
   \<and> getSealedSegmentsDist
       (exampleChecker [examplePlacement 100 1 5, examplePlacement 100 2 5]) exampleReplica
     = [examplePlacement 100 1 5, examplePlacement 100 2 5]
   \<and> Version (examplePlacement 100 1 5) = Version (examplePlacement 100 2 5)"
  by (simp add: exampleChecker_def exampleReplica_def examplePlacement_def
        findRepeatedSealedSegments_def findRepeatedSealedSegments_versions_def
        getSealedSegmentsDist_def GetByFilter_def WithCollectionID_def WithNodeID_def isL0Segment_def)

section \<open>What the staleness filters remove\<close>

lemma filterSegmentInUse_loop_filter:
  assumes "\<And>s. s \<in> set segs \<Longrightarrow>
     (case GetShardLeader (dist c) replica (InsertChannel s) of
        None \<Rightarrow> \<not> K s
      | Some leaderID \<Rightarrow>
          (case GetLeaderShardView (dist c) leaderID (InsertChannel s) of
             None \<Rightarrow> False
           | Some view \<Rightarrow>
               K s = (\<not> (GetPartition (meta c) (PartitionID s) \<noteq> None
                        \<and> TargetVersion view \<noteq> initialTargetVersion
                        \<and> TargetVersion view
                            < GetCollectionTargetVersion (targetMgr c) (CollectionID s) CurrentTarget))))"
  shows "filterSegmentInUse_loop c replica segs filtered = Inr (filtered @ filter K segs)"
  using assms
proof (induction segs arbitrary: filtered)
  case Nil
  then show ?case by simp
next
  case (Cons s rest)
  have rest: "filterSegmentInUse_loop c replica rest acc = Inr (acc @ filter K rest)" for acc
    by (rule Cons.IH) (rule Cons.prems, simp)
  have here: "case GetShardLeader (dist c) replica (InsertChannel s) of
        None \<Rightarrow> \<not> K s
      | Some leaderID \<Rightarrow>
          (case GetLeaderShardView (dist c) leaderID (InsertChannel s) of
             None \<Rightarrow> False
           | Some view \<Rightarrow>
               K s = (\<not> (GetPartition (meta c) (PartitionID s) \<noteq> None
                        \<and> TargetVersion view \<noteq> initialTargetVersion
                        \<and> TargetVersion view
                            < GetCollectionTargetVersion (targetMgr c) (CollectionID s) CurrentTarget)))"
    by (rule Cons.prems) simp
  show ?case
  proof (cases "GetShardLeader (dist c) replica (InsertChannel s)")
    case None
    with here rest show ?thesis by simp
  next
    case (Some leaderID)
    show ?thesis
    proof (cases "GetLeaderShardView (dist c) leaderID (InsertChannel s)")
      case None
      with here Some show ?thesis by simp
    next
      case (Some view)
      with here \<open>GetShardLeader (dist c) replica (InsertChannel s) = Some leaderID\<close> rest
      show ?thesis by (simp add: Let_def)
    qed
  qed
qed

lemma filterExistedOnLeader_loop_filter:
  assumes "\<And>s. s \<in> set segs \<Longrightarrow>
     (case GetShardLeader (dist c) replica (InsertChannel s) of
        None \<Rightarrow> \<not> K s
      | Some leaderID \<Rightarrow>
          (case GetLeaderShardView (dist c) leaderID (InsertChannel s) of
             None \<Rightarrow> False
           | Some view \<Rightarrow>
               K s = (case Segments view (ID s) of
                        None \<Rightarrow> True
                      | Some seg \<Rightarrow> NodeID seg \<noteq> Node s)))"
  shows "filterExistedOnLeader_loop c replica segs filtered = Inr (filtered @ filter K segs)"
  using assms
proof (induction segs arbitrary: filtered)
  case Nil
  then show ?case by simp
next
  case (Cons s rest)
  have rest: "filterExistedOnLeader_loop c replica rest acc = Inr (acc @ filter K rest)" for acc
    by (rule Cons.IH) (rule Cons.prems, simp)
  have here: "case GetShardLeader (dist c) replica (InsertChannel s) of
        None \<Rightarrow> \<not> K s
      | Some leaderID \<Rightarrow>
          (case GetLeaderShardView (dist c) leaderID (InsertChannel s) of
             None \<Rightarrow> False
           | Some view \<Rightarrow>
               K s = (case Segments view (ID s) of
                        None \<Rightarrow> True
                      | Some seg \<Rightarrow> NodeID seg \<noteq> Node s))"
    by (rule Cons.prems) simp
  show ?case
  proof (cases "GetShardLeader (dist c) replica (InsertChannel s)")
    case None
    with here rest show ?thesis by simp
  next
    case (Some leaderID)
    show ?thesis
    proof (cases "GetLeaderShardView (dist c) leaderID (InsertChannel s)")
      case None
      with here Some show ?thesis by simp
    next
      case (Some view)
      with here \<open>GetShardLeader (dist c) replica (InsertChannel s) = Some leaderID\<close> rest
      show ?thesis by (simp split: option.splits)
    qed
  qed
qed

text \<open>
  Claim C4. When a leader view is registered for every candidate whose shard leader resolves
  (the claim speaks of the leader's adopted target version), \<^verbatim>\<open>filterSegmentInUse\<close>
  returns its input without exactly the candidates for which no shard leader resolves, or
  whose partition still exists in meta while the leader's \<open>TargetVersion\<close> is not the
  initial version 0 and is strictly less than the collection's current target version; the
  others pass through unchanged and in order.
\<close>

theorem filterSegmentInUse_removes_exactly:
  assumes "\<forall>s\<in>set segments. \<forall>leaderID.
             GetShardLeader (dist c) replica (InsertChannel s) = Some leaderID \<longrightarrow>
             GetLeaderShardView (dist c) leaderID (InsertChannel s) \<noteq> None"
  shows "filterSegmentInUse c replica segments =
     Inr (filter (\<lambda>s. \<not> (GetShardLeader (dist c) replica (InsertChannel s) = None
                         \<or> (GetPartition (meta c) (PartitionID s) \<noteq> None
                            \<and> (\<exists>leaderID view.
                                  GetShardLeader (dist c) replica (InsertChannel s) = Some leaderID
                                \<and> GetLeaderShardView (dist c) leaderID (InsertChannel s) = Some view
                                \<and> TargetVersion view \<noteq> 0
                                \<and> TargetVersion view
                                    < GetCollectionTargetVersion (targetMgr c) (CollectionID s)
                                        CurrentTarget))))
            segments)"
  unfolding filterSegmentInUse_def
  by (subst filterSegmentInUse_loop_filter)
     (use assms in \<open>auto simp: initialTargetVersion_def split: option.splits\<close>)

text \<open>
  Claim C6. When a leader view is registered for every candidate whose shard leader resolves
  (the claim speaks of the leader's view), \<^verbatim>\<open>filterExistedOnLeader\<close> returns
  its input without exactly the candidates for which no shard leader resolves, or whose
  segment id the leader's view maps to the candidate's own node; a candidate that the leader
  reads from another node, or does not list, passes through.
\<close>

theorem filterExistedOnLeader_removes_exactly:
  assumes "\<forall>s\<in>set segments. \<forall>leaderID.
             GetShardLeader (dist c) replica (InsertChannel s) = Some leaderID \<longrightarrow>
             GetLeaderShardView (dist c) leaderID (InsertChannel s) \<noteq> None"
  shows "filterExistedOnLeader c replica segments =
     Inr (filter (\<lambda>s. \<not> (GetShardLeader (dist c) replica (InsertChannel s) = None
                         \<or> (\<exists>leaderID view seg.
                                  GetShardLeader (dist c) replica (InsertChannel s) = Some leaderID
                                \<and> GetLeaderShardView (dist c) leaderID (InsertChannel s) = Some view
                                \<and> Segments view (ID s) = Some seg
                                \<and> NodeID seg = Node s)))
            segments)"
  unfolding filterExistedOnLeader_def
  by (subst filterExistedOnLeader_loop_filter)
     (use assms in \<open>auto split: option.splits\<close>)


theorem filterSegmentInUse_removes_exactly_witness:
  "filterSegmentInUse (withLeaderView (Some staleView) (exampleChecker [])) exampleReplica
     [examplePlacement 100 1 2,
      (examplePlacement 101 2 3)\<lparr>PartitionID := 6\<rparr>,
      (examplePlacement 102 3 1)\<lparr>InsertChannel := ''dml_9''\<rparr>]
   = Inr [(examplePlacement 101 2 3)\<lparr>PartitionID := 6\<rparr>]"
  using filterSegmentInUse_removes_exactly
          [of "[examplePlacement 100 1 2,
                (examplePlacement 101 2 3)\<lparr>PartitionID := 6\<rparr>,
                (examplePlacement 102 3 1)\<lparr>InsertChannel := ''dml_9''\<rparr>]"
              "withLeaderView (Some staleView) (exampleChecker [])" exampleReplica]
  by (simp add: withLeaderView_def staleView_def exampleView_def exampleChecker_def
        examplePlacement_def)

theorem filterExistedOnLeader_removes_exactly_witness:
  "filterExistedOnLeader (withLeaderView (Some servingView) (exampleChecker [])) exampleReplica
     [examplePlacement 100 1 2,
      examplePlacement 100 2 3,
      (examplePlacement 100 3 1)\<lparr>InsertChannel := ''dml_9''\<rparr>]
   = Inr [examplePlacement 100 2 3]"
  using filterExistedOnLeader_removes_exactly
          [of "[examplePlacement 100 1 2,
                examplePlacement 100 2 3,
                (examplePlacement 100 3 1)\<lparr>InsertChannel := ''dml_9''\<rparr>]"
              "withLeaderView (Some servingView) (exampleChecker [])" exampleReplica]
  by (simp add: withLeaderView_def servingView_def exampleView_def exampleChecker_def
        examplePlacement_def)

subsection \<open>A shard leader without a registered view\<close>

lemma getSealed_fault:
  "getSealedSegmentDiff (withLeaderView None (exampleChecker [examplePlacement 300 1 1])) 1 10
     = ([], [examplePlacement 300 1 1])"
  by (simp add: getSealedSegmentDiff_def sealedLoadCandidates_def sortedSealedDist_def
        sealedDistMap_def getSealedSegmentsDist_def GetByFilter_def WithCollectionID_def
        WithNodeID_def withLeaderView_def exampleChecker_def exampleReplica_def
        examplePlacement_def)

text \<open>
  Claim C5 fails on the code. Node 1 resolves as the leader of the channel while no leader
  view is registered for it, and the distribution holds one sealed segment that is in no
  target: both filters read a field of the nil view, and the panic leaves \<^verbatim>\<open>Check\<close>.
  \<^verbatim>\<open>getGrowingSegmentDiff\<close> tests the same pointer for nil before it reads it.
\<close>

theorem staleness_filters_fault_without_leader_view:
  "filterSegmentInUse (withLeaderView None (exampleChecker [examplePlacement 300 1 1]))
      exampleReplica [examplePlacement 300 1 1] = Inl NilPointerDereference
   \<and> filterExistedOnLeader (withLeaderView None (exampleChecker [examplePlacement 300 1 1]))
      exampleReplica [examplePlacement 300 1 1] = Inl NilPointerDereference
   \<and> Check (withLeaderView None (exampleChecker [examplePlacement 300 1 1]))
      = Inl NilPointerDereference"
proof -
  let ?c = "withLeaderView None (exampleChecker [examplePlacement 300 1 1])"
  have a: "filterSegmentInUse ?c exampleReplica [examplePlacement 300 1 1] = Inl NilPointerDereference"
    by (simp add: filterSegmentInUse_def withLeaderView_def exampleChecker_def examplePlacement_def)
  have b: "filterExistedOnLeader ?c exampleReplica [examplePlacement 300 1 1] = Inl NilPointerDereference"
    by (simp add: filterExistedOnLeader_def withLeaderView_def exampleChecker_def examplePlacement_def)
  have r: "checkReplica ?c exampleReplica = Inl NilPointerDereference"
    unfolding checkReplica_def
    using a getSealed_fault by (simp add: exampleReplica_def)
  have "Check ?c = Inl NilPointerDereference"
    unfolding Check_def
    using r by (simp add: readyToCheck_def withLeaderView_def exampleChecker_def)
  with a b show ?thesis by simp
qed

section \<open>Release of growing segments\<close>

lemma getGrowingSegmentDiff_segments_filter:
  "getGrowingSegmentDiff_segments cur nxt chans segs toRelease =
   toRelease @ filter (\<lambda>segment. ID segment \<notin> cur \<and> ID segment \<notin> nxt
       \<and> (\<exists>channel. chans (InsertChannel segment) = Some channel
             \<and> GetTimestamp (StartPosition segment) < GetTimestamp (SeekPosition channel))) segs"
  by (induction segs arbitrary: toRelease) (auto simp: Let_def split: option.splits)

lemma getGrowingSegmentDiff_leaders_set:
  "set (getGrowingSegmentDiff_leaders c collectionID leaders toRelease) =
   set toRelease \<union>
   (\<Union>leader \<in> set leaders.
     {s. \<exists>view channel.
        GetLeaderShardView (dist c) (snd leader) (fst leader) = Some view
      \<and> TargetVersion view = GetCollectionTargetVersion (targetMgr c) collectionID CurrentTarget
      \<and> s \<in> snd ` set (GrowingSegments view)
      \<and> ID s \<notin> GetGrowingSegmentsByCollection (targetMgr c) collectionID CurrentTarget
      \<and> ID s \<notin> GetGrowingSegmentsByCollection (targetMgr c) collectionID NextTarget
      \<and> GetDmChannelsByCollection (targetMgr c) collectionID CurrentTarget (InsertChannel s)
           = Some channel
      \<and> GetTimestamp (StartPosition s) < GetTimestamp (SeekPosition channel)})"
proof (induction leaders arbitrary: toRelease)
  case Nil
  then show ?case by simp
next
  case (Cons leader rest)
  obtain channelName node where l: "leader = (channelName, node)" by (cases leader)
  show ?case
  proof (cases "GetLeaderShardView (dist c) node channelName")
    case None
    then show ?thesis unfolding l by (simp add: Cons.IH)
  next
    case (Some view)
    show ?thesis
    proof (cases "TargetVersion view = GetCollectionTargetVersion (targetMgr c) collectionID CurrentTarget")
      case False
      with Some show ?thesis unfolding l by (simp add: Cons.IH)
    next
      case True
      with Some show ?thesis unfolding l
        by (simp add: Cons.IH Let_def getGrowingSegmentDiff_segments_filter) blast
    qed
  qed
qed

text \<open>
  Claim C3. \<^verbatim>\<open>getGrowingSegmentDiff\<close> puts a growing segment on its release list
  if and only if the replica exists and leads a channel whose leader view is registered, has
  adopted the collection's current target version and reports the segment, the segment's id
  is in neither the current nor the next target's growing-segment ids, the segment's insert
  channel is in the current target's channel map, and the segment's start timestamp is
  strictly less than that channel's seek timestamp. A segment whose start position is not
  behind the seek position of its channel (start 200 against seek 100) is never released.
\<close>

theorem getGrowingSegmentDiff_releases_exactly:
  "(s \<in> set (snd (getGrowingSegmentDiff c collectionID replicaID)) \<longleftrightarrow>
      (\<exists>replica channelName node view channel.
          ReplicaManager_Get (meta c) replicaID = Some replica
        \<and> (channelName, node) \<in> set (GetShardLeadersByReplica (dist c) replica)
        \<and> GetLeaderShardView (dist c) node channelName = Some view
        \<and> TargetVersion view = GetCollectionTargetVersion (targetMgr c) collectionID CurrentTarget
        \<and> s \<in> snd ` set (GrowingSegments view)
        \<and> ID s \<notin> GetGrowingSegmentsByCollection (targetMgr c) collectionID CurrentTarget
        \<and> ID s \<notin> GetGrowingSegmentsByCollection (targetMgr c) collectionID NextTarget
        \<and> GetDmChannelsByCollection (targetMgr c) collectionID CurrentTarget (InsertChannel s)
             = Some channel
        \<and> GetTimestamp (StartPosition s) < GetTimestamp (SeekPosition channel)))
   \<and> ((\<forall>channel. GetDmChannelsByCollection (targetMgr c) collectionID CurrentTarget
                      (InsertChannel s) = Some channel
                   \<longrightarrow> GetTimestamp (SeekPosition channel) \<le> GetTimestamp (StartPosition s))
        \<longrightarrow> s \<notin> set (snd (getGrowingSegmentDiff c collectionID replicaID)))"
proof -
  have iff: "s \<in> set (snd (getGrowingSegmentDiff c collectionID replicaID)) \<longleftrightarrow>
      (\<exists>replica channelName node view channel.
          ReplicaManager_Get (meta c) replicaID = Some replica
        \<and> (channelName, node) \<in> set (GetShardLeadersByReplica (dist c) replica)
        \<and> GetLeaderShardView (dist c) node channelName = Some view
        \<and> TargetVersion view = GetCollectionTargetVersion (targetMgr c) collectionID CurrentTarget
        \<and> s \<in> snd ` set (GrowingSegments view)
        \<and> ID s \<notin> GetGrowingSegmentsByCollection (targetMgr c) collectionID CurrentTarget
        \<and> ID s \<notin> GetGrowingSegmentsByCollection (targetMgr c) collectionID NextTarget
        \<and> GetDmChannelsByCollection (targetMgr c) collectionID CurrentTarget (InsertChannel s)
             = Some channel
        \<and> GetTimestamp (StartPosition s) < GetTimestamp (SeekPosition channel))"
  proof (cases "ReplicaManager_Get (meta c) replicaID")
    case None
    then show ?thesis by (simp add: getGrowingSegmentDiff_def)
  next
    case (Some replica)
    then show ?thesis
      by (simp add: getGrowingSegmentDiff_def getGrowingSegmentDiff_leaders_set) force
  qed
  show ?thesis
  proof (rule conjI [OF iff], rule impI, rule notI)
    assume late: "\<forall>channel. GetDmChannelsByCollection (targetMgr c) collectionID CurrentTarget
                      (InsertChannel s) = Some channel
                   \<longrightarrow> GetTimestamp (SeekPosition channel) \<le> GetTimestamp (StartPosition s)"
      and "s \<in> set (snd (getGrowingSegmentDiff c collectionID replicaID))"
    with iff obtain channel where
      "GetDmChannelsByCollection (targetMgr c) collectionID CurrentTarget (InsertChannel s)
         = Some channel"
      "GetTimestamp (StartPosition s) < GetTimestamp (SeekPosition channel)" by blast
    with late show False by fastforce
  qed
qed

theorem getGrowingSegmentDiff_releases_exactly_witness:
  "exampleGrowing 400 50
     \<in> set (snd (getGrowingSegmentDiff (withLeaderView (Some growingView) (exampleChecker [])) 1 10))
   \<and> exampleGrowing 401 200
     \<notin> set (snd (getGrowingSegmentDiff (withLeaderView (Some growingView) (exampleChecker [])) 1 10))"
  using getGrowingSegmentDiff_releases_exactly
          [of "exampleGrowing 400 50" "withLeaderView (Some growingView) (exampleChecker [])" 1 10]
        getGrowingSegmentDiff_releases_exactly
          [of "exampleGrowing 401 200" "withLeaderView (Some growingView) (exampleChecker [])" 1 10]
  by (simp add: withLeaderView_def growingView_def exampleGrowing_def exampleView_def
        exampleChecker_def examplePlacement_def exampleReplica_def GetTimestamp_def)

section \<open>The L0 gate of the sealed-segment differ\<close>

text \<open>
  Claim C2. For a replica that exists: when the load candidates collected by the two target
  loops of \<^verbatim>\<open>getSealedSegmentDiff\<close> contain an L0 segment, the returned
  \<open>toLoad\<close> is exactly the L0 candidates, in their order, and every other candidate
  is left out; when they contain none, the candidates are returned unchanged.
\<close>

theorem getSealedSegmentDiff_L0_gate:
  assumes "ReplicaManager_Get (meta c) replicaID = Some replica"
  shows "((\<exists>s \<in> set (sealedLoadCandidates c collectionID replica). Level s = L0) \<longrightarrow>
            fst (getSealedSegmentDiff c collectionID replicaID)
              = filter (\<lambda>s. Level s = L0) (sealedLoadCandidates c collectionID replica))
       \<and> ((\<forall>s \<in> set (sealedLoadCandidates c collectionID replica). Level s \<noteq> L0) \<longrightarrow>
            fst (getSealedSegmentDiff c collectionID replicaID)
              = sealedLoadCandidates c collectionID replica)"
proof -
  let ?cands = "sealedLoadCandidates c collectionID replica"
  have len: "(0 < length (filter (\<lambda>s. Level s = L0) ?cands)) = (\<exists>s \<in> set ?cands. Level s = L0)"
    by (simp add: filter_empty_conv)
  show ?thesis
    using assms unfolding getSealedSegmentDiff_def
    by (simp only: option.case Let_def len) auto
qed

theorem getSealedSegmentDiff_L0_gate_witness:
  "fst (getSealedSegmentDiff
          (withNextTarget [(500, exampleTargetSegment 500 Normal), (501, exampleTargetSegment 501 L0)]
             (exampleChecker [])) 1 10)
     = [exampleTargetSegment 501 L0]
   \<and> fst (getSealedSegmentDiff
          (withNextTarget [(500, exampleTargetSegment 500 Normal), (502, exampleTargetSegment 502 Normal)]
             (exampleChecker [])) 1 10)
     = [exampleTargetSegment 500 Normal, exampleTargetSegment 502 Normal]"
  using getSealedSegmentDiff_L0_gate
          [of "withNextTarget [(500, exampleTargetSegment 500 Normal), (501, exampleTargetSegment 501 L0)]
                 (exampleChecker [])" 10 exampleReplica 1]
        getSealedSegmentDiff_L0_gate
          [of "withNextTarget [(500, exampleTargetSegment 500 Normal), (502, exampleTargetSegment 502 Normal)]
                 (exampleChecker [])" 10 exampleReplica 1]
  by (simp add: withNextTarget_def exampleTargetSegment_def exampleChecker_def exampleReplica_def
        sealedLoadCandidates_def sealedDistMap_def sortedSealedDist_def getSealedSegmentsDist_def
        GetByFilter_def isLoadCandidate_def)

section \<open>The distribution map of the sealed-segment differ\<close>






section \<open>Node availability in the load path\<close>

lemma createSegmentLoadTasks_shards_normal:
  "createSegmentLoadTasks_shards c replica False groups nodes plans =
   plans @ concat (map (\<lambda>(shard, segments).
       case GetLatestLeadersByReplicaShard (dist c) replica shard of
         None \<Rightarrow> []
       | Some leader \<Rightarrow>
           map (\<lambda>p. p\<lparr>PlanReplica := replica\<rparr>)
             (AssignSegment (balancer c) (ReplicaCollectionID replica)
                (map (\<lambda>s. SegmentInfo.extend s (Segment.fields 0 0)) segments) nodes False))
     groups)"
proof (induction groups arbitrary: plans)
  case Nil
  then show ?case by simp
next
  case (Cons g groups)
  obtain shard segments where g: "g = (shard, segments)" by (cases g)
  show ?case unfolding g
    by (cases "GetLatestLeadersByReplicaShard (dist c) replica shard")
       (simp_all add: Cons.IH Let_def)
qed

text \<open>
  Claim C10. The available nodes of \<^verbatim>\<open>createSegmentLoadTasks\<close> are exactly the
  replica's nodes that \<^verbatim>\<open>IsStoppingNode\<close> reports as not stopping, without an
  error, and that are not outbound: a stopping node, an outbound node and a node whose lookup
  fails are all excluded. When no node is available the call produces no load task. For a
  batch that is not L0, the node set handed to the balancer for every shard is this
  available set.
\<close>

theorem createSegmentLoadTasks_excludes_unavailable_nodes:
  "set (availableNodes c replica)
     = {n \<in> set (ReplicaNodes replica).
          IsStoppingNode (nodeMgr c) n = Inr False \<and> n \<notin> CheckOutboundNodes (meta c) replica}
   \<and> (IsStoppingNode (nodeMgr c) node = Inr True \<longrightarrow> node \<notin> set (availableNodes c replica))
   \<and> (node \<in> CheckOutboundNodes (meta c) replica \<longrightarrow> node \<notin> set (availableNodes c replica))
   \<and> (IsStoppingNode (nodeMgr c) node = Inl err \<longrightarrow> node \<notin> set (availableNodes c replica))
   \<and> (availableNodes c replica = [] \<longrightarrow> createSegmentLoadTasks c segments replica = [])
   \<and> (availableNodes c replica \<noteq> [] \<and> segments \<noteq> [] \<and> Level (hd segments) \<noteq> L0 \<longrightarrow>
        createSegmentLoadTasks c segments replica =
          CreateSegmentTasksFromPlans (runtime c)
            (concat (map (\<lambda>(shard, members).
               case GetLatestLeadersByReplicaShard (dist c) replica shard of
                 None \<Rightarrow> []
               | Some leader \<Rightarrow>
                   map (\<lambda>p. p\<lparr>PlanReplica := replica\<rparr>)
                     (AssignSegment (balancer c) (ReplicaCollectionID replica)
                        (map (\<lambda>s. SegmentInfo.extend s (Segment.fields 0 0)) members)
                        (availableNodes c replica) False))
             (groupByInsertChannel segments []))))"
proof -
  have avail: "set (availableNodes c replica)
     = {n \<in> set (ReplicaNodes replica).
          IsStoppingNode (nodeMgr c) n = Inr False \<and> n \<notin> CheckOutboundNodes (meta c) replica}"
  proof -
    have p: "(case IsStoppingNode (nodeMgr c) n of
                Inl e \<Rightarrow> False
              | Inr stop \<Rightarrow> n \<notin> CheckOutboundNodes (meta c) replica \<and> \<not> stop)
             = (IsStoppingNode (nodeMgr c) n = Inr False
                \<and> n \<notin> CheckOutboundNodes (meta c) replica)" for n
      by (cases "IsStoppingNode (nodeMgr c) n") auto
    show ?thesis by (simp add: availableNodes_def Let_def p)
  qed
  have stop: "IsStoppingNode (nodeMgr c) node = Inr True \<longrightarrow> node \<notin> set (availableNodes c replica)"
    unfolding avail by simp
  have out: "node \<in> CheckOutboundNodes (meta c) replica \<longrightarrow> node \<notin> set (availableNodes c replica)"
    unfolding avail by simp
  have err: "IsStoppingNode (nodeMgr c) node = Inl err \<longrightarrow> node \<notin> set (availableNodes c replica)"
    unfolding avail by simp
  have none: "availableNodes c replica = [] \<longrightarrow> createSegmentLoadTasks c segments replica = []"
    by (simp add: createSegmentLoadTasks_def split: list.splits)
  have normal: "availableNodes c replica \<noteq> [] \<and> segments \<noteq> [] \<and> Level (hd segments) \<noteq> L0 \<longrightarrow>
        createSegmentLoadTasks c segments replica =
          CreateSegmentTasksFromPlans (runtime c)
            (concat (map (\<lambda>(shard, members).
               case GetLatestLeadersByReplicaShard (dist c) replica shard of
                 None \<Rightarrow> []
               | Some leader \<Rightarrow>
                   map (\<lambda>p. p\<lparr>PlanReplica := replica\<rparr>)
                     (AssignSegment (balancer c) (ReplicaCollectionID replica)
                        (map (\<lambda>s. SegmentInfo.extend s (Segment.fields 0 0)) members)
                        (availableNodes c replica) False))
             (groupByInsertChannel segments [])))"
  proof
    assume h: "availableNodes c replica \<noteq> [] \<and> segments \<noteq> [] \<and> Level (hd segments) \<noteq> L0"
    then obtain first others where s: "segments = first # others" by (cases segments) auto
    with h have lvl: "Level first \<noteq> L0" by simp
    show "createSegmentLoadTasks c segments replica =
          CreateSegmentTasksFromPlans (runtime c)
            (concat (map (\<lambda>(shard, members).
               case GetLatestLeadersByReplicaShard (dist c) replica shard of
                 None \<Rightarrow> []
               | Some leader \<Rightarrow>
                   map (\<lambda>p. p\<lparr>PlanReplica := replica\<rparr>)
                     (AssignSegment (balancer c) (ReplicaCollectionID replica)
                        (map (\<lambda>s. SegmentInfo.extend s (Segment.fields 0 0)) members)
                        (availableNodes c replica) False))
             (groupByInsertChannel segments [])))"
      using h lvl unfolding s createSegmentLoadTasks_def
      by (simp only: list.case Let_def length_0_conv if_False
            createSegmentLoadTasks_shards_normal append_Nil)
  qed
  from avail stop out err none normal show ?thesis by (intro conjI)
qed

theorem createSegmentLoadTasks_excludes_unavailable_nodes_witness:
  "availableNodes (exampleChecker []) exampleReplica = [1]
   \<and> 2 \<notin> set (availableNodes (exampleChecker []) exampleReplica)
   \<and> 3 \<notin> set (availableNodes (exampleChecker []) exampleReplica)
   \<and> 1 \<notin> set (availableNodes (withNodeLookupError (exampleChecker [])) exampleReplica)
   \<and> createSegmentLoadTasks (withNodeLookupError (exampleChecker []))
        [exampleTargetSegment 500 Normal] exampleReplica = []
   \<and> length (createSegmentLoadTasks (exampleChecker [])
        [exampleTargetSegment 500 Normal] exampleReplica) = 1"
  using createSegmentLoadTasks_excludes_unavailable_nodes
          [where c = "exampleChecker []" and replica = exampleReplica and node = 3
             and segments = "[exampleTargetSegment 500 Normal]"]
        createSegmentLoadTasks_excludes_unavailable_nodes
          [where c = "exampleChecker []" and replica = exampleReplica and node = 2]
        createSegmentLoadTasks_excludes_unavailable_nodes
          [where c = "withNodeLookupError (exampleChecker [])" and replica = exampleReplica
             and node = 1 and err = "''node not found''"
             and segments = "[exampleTargetSegment 500 Normal]"]
  by (simp add: availableNodes_def withNodeLookupError_def exampleChecker_def exampleReplica_def
        exampleTargetSegment_def exampleView_def)

section \<open>Cleanup of released collections and task priority\<close>












end
